theory Spec2Isabelle
  imports Main "HOL-Library.Sublist"
begin

section \<open>The placeholder substitutor \<open>env.sh\<close>\<close>

text \<open>
  The only program logic of the repository is the shell script \<open>env.sh\<close> (printed in
  \<open>README.md\<close>; the listing stops at the \<open>done\<close> of the inner loop, the loop over the
  roots is taken to close right after it). Under \<open>set -e\<close> it
  \<^item> checks \<open>APP_PREFIX\<close> and \<open>ASSET_DIRS\<close> with the \<open>:?\<close> parameter expansion,
  \<^item> iterates \<open>for dir in $ASSET_DIRS\<close> (unquoted, so the shell splits the value into fields),
  \<^item> skips a \<open>dir\<close> failing \<open>[ -d "$dir" ]\<close> with a warning and \<open>continue\<close>,
  \<^item> otherwise echoes a scanning line and runs the pipeline
    \<open>env | grep "^${APP_PREFIX}" | while IFS='=' read -r key value; do ... done\<close>,
  \<^item> whose body echoes a line and runs
    \<open>find "$dir" -type f -exec sed -i "s|${key}|${value}|g" {} +\<close>.

  The script is embedded as state-passing functions. The file tree, the variables the
  shell exports and the behaviour of \<open>env\<close>, \<open>grep\<close>, \<open>read\<close>, \<open>find\<close> and \<open>sed\<close> on the
  constructs the script uses are part of the model. The shell is one that runs the last
  command of a pipeline in a subshell (dash, bash).

  Inputs on which the utilities leave the modelled fragment make the model answer
  \<open>Unmodelled\<close>; nothing is stated about the script there. The fragment is:
  the C (POSIX) locale, where characters are bytes;
  roots free of pathname-expansion characters and not read by \<open>find\<close> as an expression;
  a prefix and keys that, as basic regular expressions, consist of ordinary characters and
  the dot; values without backslash and without the \<open>sed\<close> delimiter. The splitting of a
  very long file list into several \<open>sed\<close> runs is not modelled.
\<close>

subsection \<open>Characters and lines\<close>

abbreviation nl :: char where "nl \<equiv> CHR 0x0A"
abbreviation tab :: char where "tab \<equiv> CHR 0x09"
abbreviation backslash :: char where "backslash \<equiv> CHR 0x5C"
abbreviation quote :: char where "quote \<equiv> CHR 0x27"

type_synonym path = string

text \<open>
  The variables that the shell running the script exports to its children, as name and
  value, in the order in which a child \<open>env\<close> prints them. This is not the environment
  the shell was started with: at start the shell imports that environment, may re-order
  it, adds variables of its own (\<open>PWD\<close>) and may leave out entries whose names it does
  not accept as variable names. The settings \<open>APP_PREFIX\<close> and \<open>ASSET_DIRS\<close> of a script
  run as a command are among the exported variables.
\<close>

type_synonym environ = "(string \<times> string) list"

text \<open>The output of \<open>env\<close>: one \<open>name=value\<close> line per variable (more lines where a value
  holds newlines).\<close>

definition env_output :: "environ \<Rightarrow> string" where
  "env_output e = concat (map (\<lambda>(n, v). n @ ''='' @ v @ [nl]) e)"

text \<open>
  Inside the loop the variable \<open>dir\<close> holds the current root. A \<open>dir\<close> that the shell
  imported is an exported variable, so the children started in the loop see it with the
  current root as its value; a \<open>dir\<close> that was not imported is not exported.
\<close>

definition listing_at :: "environ \<Rightarrow> path \<Rightarrow> environ" where
  "listing_at e d = map (\<lambda>(n, v). if n = ''dir'' then (n, d) else (n, v)) e"

text \<open>
  The locale of a child process: the first of \<open>LC_ALL\<close>, \<open>LC_CTYPE\<close>, \<open>LANG\<close> that is
  set and not empty names it; none, \<open>C\<close> or \<open>POSIX\<close> give the C locale. In any other
  locale \<open>grep\<close> and \<open>sed\<close> match characters of several bytes and \<open>grep\<close> treats input
  with invalid bytes as binary; that is outside the model.
\<close>

datatype char_locale = C_Locale | Other_Locale

definition locale_name :: "environ \<Rightarrow> string option" where
  "locale_name e =
     (case filter (\<lambda>v. v \<noteq> None \<and> v \<noteq> Some [])
             [map_of e ''LC_ALL'', map_of e ''LC_CTYPE'', map_of e ''LANG''] of
        [] \<Rightarrow> None
      | v # _ \<Rightarrow> v)"

definition locale_of :: "environ \<Rightarrow> char_locale" where
  "locale_of e =
     (if locale_name e = None \<or> locale_name e = Some ''C'' \<or> locale_name e = Some ''POSIX''
      then C_Locale else Other_Locale)"

text \<open>
  The newline-terminated lines of a text, as \<open>grep\<close> passes them on and \<open>read\<close> consumes
  them. An unterminated remainder is dropped: \<open>read\<close> returns non-zero on it and the
  \<open>while\<close> loop ends (the output of \<open>env\<close> always ends with a newline).
\<close>

fun lines_of :: "string \<Rightarrow> string list" where
  "lines_of [] = []"
| "lines_of (c # cs) =
     (if c = nl then [] # lines_of cs
      else (case lines_of cs of [] \<Rightarrow> [] | l # ls \<Rightarrow> (c # l) # ls))"

subsection \<open>Parameter checks and field splitting\<close>

text \<open>\<open>${VAR:?word}\<close> succeeds iff the variable is set and not null.\<close>

definition param_set :: "string option \<Rightarrow> bool" where
  "param_set v = (case v of None \<Rightarrow> False | Some s \<Rightarrow> s \<noteq> [])"

definition is_ifs :: "char \<Rightarrow> bool" where
  "is_ifs c = (c = CHR '' '' \<or> c = tab \<or> c = nl)"

text \<open>
  Field splitting of the unquoted \<open>$ASSET_DIRS\<close> with the default \<open>IFS\<close>
  (space, tab, newline): maximal runs of other characters.
\<close>

function field_split :: "string \<Rightarrow> string list" where
  "field_split [] = []"
| "field_split (c # cs) =
     (if is_ifs c then field_split cs
      else (c # takeWhile (\<lambda>x. \<not> is_ifs x) cs) # field_split (dropWhile (\<lambda>x. \<not> is_ifs x) cs))"
  by pat_completeness auto
termination
  by (relation "measure length") (auto simp: length_dropWhile_le less_Suc_eq_le)

text \<open>
  After field splitting the shell applies pathname expansion to every field, and \<open>find\<close>
  reads a leading argument that starts like an expression as one. Roots with such
  characters are outside the model.
\<close>

definition root_in_model :: "path \<Rightarrow> bool" where
  "root_in_model d =
     (d \<noteq> [] \<and> (\<forall>c \<in> set d. c \<notin> set ''*?['' \<and> c \<noteq> backslash)
      \<and> hd d \<notin> set ''-()!,'')"

subsection \<open>Basic regular expressions: the modelled fragment\<close>

datatype atom = Lit char | Any_Char

definition bre_unsupported :: "char \<Rightarrow> bool" where
  "bre_unsupported c = (c \<in> set ''[*^$'' \<or> c = backslash \<or> c = nl)"

text \<open>\<open>None\<close>: the expression uses a construct outside the fragment.\<close>

fun parse_bre :: "string \<Rightarrow> atom list option" where
  "parse_bre [] = Some []"
| "parse_bre (c # cs) =
     (if bre_unsupported c then None
      else (case parse_bre cs of
              None \<Rightarrow> None
            | Some p \<Rightarrow> Some ((if c = CHR ''.'' then Any_Char else Lit c) # p)))"

fun atom_matches :: "atom \<Rightarrow> char \<Rightarrow> bool" where
  "atom_matches (Lit x) c = (x = c)"
| "atom_matches Any_Char c = (c \<noteq> nl)"

text \<open>The expression matches a prefix of the text (the match then has the length of the
  expression, every atom consuming one character).\<close>

fun match_prefix :: "atom list \<Rightarrow> string \<Rightarrow> bool" where
  "match_prefix [] s = True"
| "match_prefix (a # p) [] = False"
| "match_prefix (a # p) (c # cs) = (atom_matches a c \<and> match_prefix p cs)"

subsection \<open>\<open>env | grep "^${APP_PREFIX}" | while IFS='=' read -r key value\<close>\<close>

text \<open>\<open>grep "^prefix"\<close> in the given locale: the lines on which the prefix, read as an
  expression, matches at the start.\<close>

definition grep_anchored :: "char_locale \<Rightarrow> string \<Rightarrow> string list \<Rightarrow> string list option" where
  "grep_anchored loc pre ls =
     (if loc \<noteq> C_Locale then None
      else (case parse_bre pre of None \<Rightarrow> None | Some p \<Rightarrow> Some (filter (match_prefix p) ls)))"

text \<open>
  \<open>IFS='=' read -r key value\<close>: \<open>key\<close> is the text before the first \<open>=\<close>, \<open>value\<close> the
  rest of the line. When that rest is a single field closed by one \<open>=\<close>, the closing
  delimiter is not part of the value (POSIX field splitting; dash and bash agree).
\<close>

definition read_value :: "string \<Rightarrow> string" where
  "read_value r =
     (if r \<noteq> [] \<and> last r = CHR ''='' \<and> CHR ''='' \<notin> set (butlast r) then butlast r else r)"

definition read_kv :: "string \<Rightarrow> string \<times> string" where
  "read_kv l =
     (takeWhile (\<lambda>c. c \<noteq> CHR ''='') l,
      read_value (drop 1 (dropWhile (\<lambda>c. c \<noteq> CHR ''='') l)))"

text \<open>The pipeline on a listing: \<open>env\<close> prints it, \<open>grep\<close> runs in the locale it names.\<close>

definition selected_pairs :: "string \<Rightarrow> environ \<Rightarrow> (string \<times> string) list option" where
  "selected_pairs pre l =
     (case grep_anchored (locale_of l) pre (lines_of (env_output l)) of
        None \<Rightarrow> None
      | Some ls \<Rightarrow> Some (map read_kv ls))"

subsection \<open>\<open>sed -i "s|${key}|${value}|g"\<close>\<close>

definition sed_script :: "string \<Rightarrow> string \<Rightarrow> string" where
  "sed_script key val = ''s|'' @ key @ ''|'' @ val @ ''|g''"

datatype ritem = RLit char | RMatch

definition split_delim :: "char \<Rightarrow> string \<Rightarrow> string \<times> string" where
  "split_delim d s = (takeWhile (\<lambda>c. c \<noteq> d) s, drop 1 (dropWhile (\<lambda>c. c \<noteq> d) s))"

definition parse_rhs :: "string \<Rightarrow> ritem list" where
  "parse_rhs r = map (\<lambda>c. if c = CHR ''&'' then RMatch else RLit c) r"

text \<open>
  The \<open>s\<close> command: the character after \<open>s\<close> delimits expression, replacement and flags.
  Accepted here: no backslash in the script, a non-empty expression of the fragment, and
  exactly the flag \<open>g\<close>. A key or value containing the delimiter shifts the parts, so the
  flags are no longer \<open>g\<close> and the script is outside the model.
\<close>

definition parse_s_command :: "string \<Rightarrow> (atom list \<times> ritem list) option" where
  "parse_s_command script =
     (case script of
        c # d # rest \<Rightarrow>
          (if c \<noteq> CHR ''s'' \<or> backslash \<in> set script \<or> nl \<in> set script then None
           else (case split_delim d rest of (re, rest1) \<Rightarrow>
                 (case split_delim d rest1 of (rhs, flags) \<Rightarrow>
                    (if flags \<noteq> ''g'' \<or> re = [] then None
                     else (case parse_bre re of
                             None \<Rightarrow> None
                           | Some p \<Rightarrow> Some (p, parse_rhs rhs))))))
      | _ \<Rightarrow> None)"

definition sed_compile :: "char_locale \<Rightarrow> string \<Rightarrow> string \<Rightarrow> (atom list \<times> ritem list) option" where
  "sed_compile loc key val =
     (if loc \<noteq> C_Locale then None else parse_s_command (sed_script key val))"

text \<open>The replacement text for one match: \<open>&\<close> stands for the matched text.\<close>

fun expand_rhs :: "ritem list \<Rightarrow> string \<Rightarrow> string" where
  "expand_rhs [] m = []"
| "expand_rhs (RLit c # r) m = c # expand_rhs r m"
| "expand_rhs (RMatch # r) m = m @ expand_rhs r m"

text \<open>
  The \<open>g\<close> flag: scan from the left; at a match emit the replacement and go on behind the
  match, otherwise copy one character. \<open>sed\<close> works line by line; no atom of the fragment
  matches a newline, so scanning the whole content is the same.
\<close>

function sed_g :: "atom list \<Rightarrow> ritem list \<Rightarrow> string \<Rightarrow> string" where
  "sed_g p r [] = []"
| "sed_g p r (c # cs) =
     (if p \<noteq> [] \<and> match_prefix p (c # cs)
      then expand_rhs r (take (length p) (c # cs)) @ sed_g p r (drop (length p - 1) cs)
      else c # sed_g p r cs)"
  by pat_completeness auto
termination
  by (relation "measure (\<lambda>(p, r, s). length s)") (auto simp: less_Suc_eq_le)

subsection \<open>The file tree and the run state\<close>

text \<open>
  A file is a directory entry of a regular file. It is the same entry by whatever path
  \<open>find\<close> reaches it: the roots \<open>site\<close> and \<open>site/.\<close> list the same entries. (\<open>sed -i\<close>
  replaces the entry it is given, so two hard links are two entries.)
\<close>

datatype entry = Entry nat

datatype access = Accessible | Unreadable | Unwritable

text \<open>
  The script never creates, deletes or renames a file, so the tree is fixed during a run:
  \<open>is_dir\<close> answers \<open>[ -d dir ]\<close>; \<open>find_files\<close> gives the regular files that
  \<open>find dir -type f\<close> reaches, in its order; \<open>find_ok\<close> says whether the traversal itself
  succeeds (it does not when a sub-directory cannot be read: \<open>find\<close> then still passes on
  the files it reached and ends with a non-zero status); \<open>access\<close> says whether \<open>sed -i\<close>
  can read the file and replace it.
\<close>

record world =
  is_dir :: "path \<Rightarrow> bool"
  find_files :: "path \<Rightarrow> entry list"
  find_ok :: "path \<Rightarrow> bool"
  access :: "entry \<Rightarrow> access"

text \<open>
  What a run changes: file contents, the lines on standard output and standard error, and
  (as a counter for the analysis) how often the pipeline ran \<open>env\<close>.
\<close>

record state =
  content :: "entry \<Rightarrow> string"
  out :: "string list"
  err :: "string list"
  env_calls :: nat

datatype failure = Missing_Setting string | Command_Failed

datatype outcome = Exit_Zero | Exit_Nonzero failure | Unmodelled

definition prefix_message :: string where
  "prefix_message =
     ''APP_PREFIX must be set (e.g. APP_PREFIX='' @ [quote] @ ''APP_PREFIX_'' @ [quote] @ '')''"

definition dirs_message :: string where
  "dirs_message = ''Must set ASSET_DIRS to one or more paths (space-delimited)''"

definition warning_line :: "path \<Rightarrow> string" where
  "warning_line d = ''Warning: directory '' @ [quote] @ d @ [quote] @ '' not found, skipping.''"

definition scanning_line :: "path \<Rightarrow> string" where
  "scanning_line d = ''Scanning directory: '' @ d"

text \<open>The bullet and the arrow of the script are UTF-8 sequences of three bytes each.\<close>

definition replacing_line :: "string \<Rightarrow> string \<Rightarrow> string" where
  "replacing_line key val =
     ''  '' @ [CHR 0xE2, CHR 0x80, CHR 0xA2] @ '' Replacing '' @ key @ '' ''
       @ [CHR 0xE2, CHR 0x86, CHR 0x92] @ '' '' @ val"

definition echo :: "string \<Rightarrow> state \<Rightarrow> state" where
  "echo l st = st\<lparr>out := out st @ [l]\<rparr>"

subsection \<open>\<open>find "$dir" -type f -exec sed -i ... {} +\<close>\<close>

text \<open>
  One \<open>sed -i\<close> run over the listed files, in order. A file that cannot be read is
  reported and skipped, the run goes on and ends with a non-zero status; a file that
  cannot be replaced stops \<open>sed\<close> at once. With no file listed, \<open>find\<close> does not start
  \<open>sed\<close> at all. The boolean is the success of \<open>sed\<close>.
\<close>

fun sed_files ::
  "world \<Rightarrow> atom list \<Rightarrow> ritem list \<Rightarrow> entry list \<Rightarrow> (entry \<Rightarrow> string) \<Rightarrow> bool \<times> (entry \<Rightarrow> string)"
where
  "sed_files w p r [] c = (True, c)"
| "sed_files w p r (f # fs) c =
     (case access w f of
        Accessible \<Rightarrow> sed_files w p r fs (c(f := sed_g p r (c f)))
      | Unreadable \<Rightarrow> (False, snd (sed_files w p r fs c))
      | Unwritable \<Rightarrow> (False, c))"

subsection \<open>The loops and the script\<close>

text \<open>
  The body of the \<open>while\<close> loop for each line read. \<open>find\<close> succeeds when its traversal
  and the \<open>sed\<close> run it started succeed. Under \<open>set -e\<close> a failing \<open>find\<close> ends the
  subshell of the loop at once, so the pipeline fails and the script exits.
\<close>

fun while_read ::
  "world \<Rightarrow> char_locale \<Rightarrow> path \<Rightarrow> (string \<times> string) list \<Rightarrow> state \<Rightarrow> outcome \<times> state"
where
  "while_read w loc d [] st = (Exit_Zero, st)"
| "while_read w loc d ((key, val) # ps) st =
     (case sed_compile loc key val of
        None \<Rightarrow> (Unmodelled, st)
      | Some (p, r) \<Rightarrow>
          (case sed_files w p r (find_files w d) (content (echo (replacing_line key val) st)) of
             (ok, c) \<Rightarrow>
               (if ok \<and> find_ok w d
                then while_read w loc d ps ((echo (replacing_line key val) st)\<lparr>content := c\<rparr>)
                else (Exit_Nonzero Command_Failed,
                      (echo (replacing_line key val) st)\<lparr>content := c\<rparr>))))"

text \<open>The loop over the roots. The children of one round see the listing of that round.\<close>

fun for_dirs :: "world \<Rightarrow> environ \<Rightarrow> string \<Rightarrow> path list \<Rightarrow> state \<Rightarrow> outcome \<times> state" where
  "for_dirs w e pre [] st = (Exit_Zero, st)"
| "for_dirs w e pre (d # ds) st =
     (if \<not> is_dir w d then for_dirs w e pre ds (echo (warning_line d) st)
      else (case selected_pairs pre (listing_at e d) of
              None \<Rightarrow> (Unmodelled, echo (scanning_line d) st)
            | Some ps \<Rightarrow>
                (case while_read w (locale_of (listing_at e d)) d ps
                        ((echo (scanning_line d) st)\<lparr>env_calls := Suc (env_calls st)\<rparr>) of
                   (Exit_Zero, st') \<Rightarrow> for_dirs w e pre ds st'
                 | (oc, st') \<Rightarrow> (oc, st'))))"

definition run :: "world \<Rightarrow> environ \<Rightarrow> state \<Rightarrow> outcome \<times> state" where
  "run w e st =
     (if \<not> param_set (map_of e ''APP_PREFIX'')
      then (Exit_Nonzero (Missing_Setting ''APP_PREFIX''), st\<lparr>err := err st @ [prefix_message]\<rparr>)
      else if \<not> param_set (map_of e ''ASSET_DIRS'')
      then (Exit_Nonzero (Missing_Setting ''ASSET_DIRS''), st\<lparr>err := err st @ [dirs_message]\<rparr>)
      else if \<not> list_all root_in_model (field_split (the (map_of e ''ASSET_DIRS'')))
      then (Unmodelled, st)
      else for_dirs w e (the (map_of e ''APP_PREFIX''))
             (field_split (the (map_of e ''ASSET_DIRS''))) st)"

subsection \<open>Notions used to state the properties\<close>

text \<open>The effect of one \<open>sed\<close> run for a pair on one content, and of all pairs in turn.\<close>

definition sed_pair :: "char_locale \<Rightarrow> string \<Rightarrow> string \<Rightarrow> string \<Rightarrow> string" where
  "sed_pair loc key val s =
     (case sed_compile loc key val of None \<Rightarrow> s | Some (p, r) \<Rightarrow> sed_g p r s)"

definition subst_all :: "char_locale \<Rightarrow> (string \<times> string) list \<Rightarrow> string \<Rightarrow> string" where
  "subst_all loc ps s = fold (\<lambda>(k, v). sed_pair loc k v) ps s"

definition pairs_in_model :: "char_locale \<Rightarrow> (string \<times> string) list \<Rightarrow> bool" where
  "pairs_in_model loc ps = (\<forall>(k, v) \<in> set ps. sed_compile loc k v \<noteq> None)"

text \<open>The pairs the loop reads from the lines that \<open>grep\<close> lets through.\<close>

definition pairs_of_lines :: "atom list \<Rightarrow> string list \<Rightarrow> (string \<times> string) list" where
  "pairs_of_lines p ls = map read_kv (filter (match_prefix p) ls)"

text \<open>The lines a root contributes to standard output when nothing fails.\<close>

definition dir_lines :: "world \<Rightarrow> (string \<times> string) list \<Rightarrow> path \<Rightarrow> string list" where
  "dir_lines w ps d =
     (if is_dir w d then scanning_line d # map (\<lambda>(k, v). replacing_line k v) ps
      else [warning_line d])"

text \<open>The contents after one root, and after a list of roots, when nothing fails; \<open>P d\<close>
  are the pairs read in the round of the root \<open>d\<close>.\<close>

definition pass ::
  "world \<Rightarrow> (string \<times> string) list \<Rightarrow> path \<Rightarrow> (entry \<Rightarrow> string) \<Rightarrow> (entry \<Rightarrow> string)" where
  "pass w ps d c = (\<lambda>f. if f \<in> set (find_files w d) then subst_all C_Locale ps (c f) else c f)"

fun after_roots ::
  "world \<Rightarrow> (path \<Rightarrow> (string \<times> string) list) \<Rightarrow> path list \<Rightarrow> (entry \<Rightarrow> string) \<Rightarrow> (entry \<Rightarrow> string)"
where
  "after_roots w P [] c = c"
| "after_roots w P (d # ds) c = after_roots w P ds (if is_dir w d then pass w (P d) d c else c)"

text \<open>How many of the roots are directories listing the file.\<close>

definition hits :: "world \<Rightarrow> path list \<Rightarrow> entry \<Rightarrow> nat" where
  "hits w ds f = length (filter (\<lambda>d. is_dir w d \<and> f \<in> set (find_files w d)) ds)"

text \<open>An existing root is healthy when \<open>find\<close> traverses it without error and lists each
  file once, and \<open>sed -i\<close> can process every listed file.\<close>

definition root_ok :: "world \<Rightarrow> path \<Rightarrow> bool" where
  "root_ok w d = (is_dir w d \<longrightarrow>
      find_ok w d \<and> distinct (find_files w d)
      \<and> (\<forall>f \<in> set (find_files w d). access w f = Accessible))"

text \<open>Both settings are present and not null, the roots \<open>ds\<close> are the fields of
  \<open>ASSET_DIRS\<close>, and every root is in the model.\<close>

definition configured :: "environ \<Rightarrow> string \<Rightarrow> path list \<Rightarrow> bool" where
  "configured e pre ds =
     (pre \<noteq> [] \<and> map_of e ''APP_PREFIX'' = Some pre
      \<and> (\<exists>dirs. dirs \<noteq> [] \<and> map_of e ''ASSET_DIRS'' = Some dirs \<and> field_split dirs = ds)
      \<and> list_all root_in_model ds)"

text \<open>Characters that stand for themselves in an expression of the fragment.\<close>

definition ordinary :: "char \<Rightarrow> bool" where
  "ordinary c = (\<not> bre_unsupported c \<and> c \<noteq> CHR ''.'')"

text \<open>
  Keys and values of the model: a non-empty key that is an expression of the fragment
  without the delimiter (a plain key has no dot either), a value without the delimiter,
  backslash or newline (a plain value has no \<open>&\<close> either).
\<close>

definition pattern_key :: "string \<Rightarrow> bool" where
  "pattern_key k = (k \<noteq> [] \<and> (\<forall>c \<in> set k. \<not> bre_unsupported c \<and> c \<noteq> CHR ''|''))"

definition plain_key :: "string \<Rightarrow> bool" where
  "plain_key k = (k \<noteq> [] \<and> (\<forall>c \<in> set k. ordinary c \<and> c \<noteq> CHR ''|''))"

definition model_value :: "string \<Rightarrow> bool" where
  "model_value v = (\<forall>c \<in> set v. c \<noteq> CHR ''|'' \<and> c \<noteq> backslash \<and> c \<noteq> nl)"

definition plain_value :: "string \<Rightarrow> bool" where
  "plain_value v = (model_value v \<and> CHR ''&'' \<notin> set v)"

text \<open>The text that \<open>sed\<close> puts in the place of a match of the plain key \<open>k\<close>: the value
  with every \<open>&\<close> standing for the key.\<close>

definition inserted :: "string \<Rightarrow> string \<Rightarrow> string" where
  "inserted k v = concat (map (\<lambda>c. if c = CHR ''&'' then k else [c]) v)"

subsection \<open>The replacement as the specification words it\<close>

text \<open>
  The replacement in the words of the specification: a literal substring replacement of
  every occurrence of the key by the value, found from the left, the search going on
  behind each replaced occurrence.
\<close>

function replace_all :: "string \<Rightarrow> string \<Rightarrow> string \<Rightarrow> string" where
  "replace_all k v [] = []"
| "replace_all k v (c # cs) =
     (if k \<noteq> [] \<and> prefix k (c # cs) then v @ replace_all k v (drop (length k - 1) cs)
      else c # replace_all k v cs)"
  by pat_completeness auto
termination
  by (relation "measure (\<lambda>(k, v, s). length s)") (auto simp: less_Suc_eq_le)

text \<open>All pairs in turn, literally.\<close>

definition replace_pairs :: "(string \<times> string) list \<Rightarrow> string \<Rightarrow> string" where
  "replace_pairs ps s = fold (\<lambda>(k, v). replace_all k v) ps s"

text \<open>\<open>meets a b\<close>: an occurrence of \<open>a\<close> can begin inside \<open>b\<close>, that is, \<open>a\<close> occurs in \<open>b\<close>
  from some position on, or an end piece of \<open>b\<close> is a beginning of \<open>a\<close>.\<close>

fun meets :: "string \<Rightarrow> string \<Rightarrow> bool" where
  "meets a [] = False"
| "meets a (c # cs) = (prefix a (c # cs) \<or> prefix (c # cs) a \<or> meets a cs)"

text \<open>
  \<open>apart k v\<close>: putting \<open>v\<close> into a text cannot form an occurrence of \<open>k\<close>, neither inside
  \<open>v\<close> nor across one of its ends. \<open>settled ps\<close>: every key of the list is apart from its
  own value and from every value that comes after it in the list.
\<close>

definition apart :: "string \<Rightarrow> string \<Rightarrow> bool" where
  "apart k v = (\<not> meets k v \<and> \<not> meets v k)"


subsection \<open>Concrete inputs\<close>

text \<open>
  The scenario of the specification: the root \<open>/site\<close> holds one file, entry 1
  (\<open>index.js\<close>), which the root \<open>/site/.\<close> reaches too; the path \<open>/missing\<close> is no
  directory; \<open>/cdn\<close> is a second root holding entry 2 (\<open>app.js\<close>); \<open>/locked\<close> is a root
  whose file, entry 3, cannot be read; \<open>/deep\<close> is a root with entry 4 and a
  sub-directory that \<open>find\<close> cannot read.
\<close>

definition site_world :: world where
  "site_world =
     \<lparr>is_dir = (\<lambda>d. d \<in> set [''/site'', ''/site/.'', ''/cdn'', ''/locked'', ''/deep'']),
      find_files = (\<lambda>d. if d = ''/site'' \<or> d = ''/site/.'' then [Entry 1]
                         else if d = ''/cdn'' then [Entry 2]
                         else if d = ''/locked'' then [Entry 3]
                         else if d = ''/deep'' then [Entry 4] else []),
      find_ok = (\<lambda>d. d \<noteq> ''/deep''),
      access = (\<lambda>f. if f = Entry 3 then Unreadable else Accessible)\<rparr>"

definition site_state :: state where
  "site_state =
     \<lparr>content = (\<lambda>f. if f = Entry 1 then ''const u = PREFIX_API_URL;''
                      else if f = Entry 2 then ''get(PREFIX_API_URL)''
                      else if f = Entry 3 then ''key PREFIX_API_URL''
                      else if f = Entry 4 then ''deep PREFIX_API_URL'' else []),
      out = [], err = [], env_calls = 0\<rparr>"

text \<open>
  A tree in which the root \<open>/locked\<close>, between the roots \<open>/site\<close> and \<open>/cdn\<close>, lists the
  entries 5, 3 and 6 in this order; entry 3 cannot be read.
\<close>

definition locked_world :: world where
  "locked_world =
     \<lparr>is_dir = (\<lambda>d. d \<in> set [''/site'', ''/cdn'', ''/locked'']),
      find_files = (\<lambda>d. if d = ''/site'' then [Entry 1]
                         else if d = ''/cdn'' then [Entry 2]
                         else if d = ''/locked'' then [Entry 5, Entry 3, Entry 6] else []),
      find_ok = (\<lambda>d. True),
      access = (\<lambda>f. if f = Entry 3 then Unreadable else Accessible)\<rparr>"

definition locked_state :: state where
  "locked_state =
     \<lparr>content = (\<lambda>f. if f = Entry 1 then ''u = PREFIX_API_URL; z = PREFIX_Z''
                      else if f = Entry 2 then ''get(PREFIX_API_URL)''
                      else if f = Entry 3 then ''key PREFIX_API_URL''
                      else if f = Entry 5 then ''a = PREFIX_API_URL, PREFIX_Z''
                      else if f = Entry 6 then ''b = PREFIX_Z, PREFIX_API_URL'' else []),
      out = [], err = [], env_calls = 0\<rparr>"

text \<open>A tree with the directory \<open>/my site\<close> (entry 1) and the directory \<open>/my\<close> (entry 2).\<close>

definition spaced_world :: world where
  "spaced_world =
     \<lparr>is_dir = (\<lambda>d. d = ''/my site'' \<or> d = ''/my''),
      find_files = (\<lambda>d. if d = ''/my site'' then [Entry 1]
                         else if d = ''/my'' then [Entry 2] else []),
      find_ok = (\<lambda>d. True),
      access = (\<lambda>f. Accessible)\<rparr>"

text \<open>Exported variables for the concrete runs.\<close>

definition env_none :: environ where
  "env_none = [(''PATH'', ''/bin''), (''APP_PREFIX'', ''PREFIX_''), (''ASSET_DIRS'', ''/site'')]"

definition env_hidden :: environ where
  "env_hidden = [(''APP_PREFIX'', ''PREFIX_''), (''ASSET_DIRS'', ''/site''),
     (''NOTE'', ''x'' @ nl # ''PREFIX_API_URL=late'')]"

definition env_missing_root :: environ where
  "env_missing_root = [(''APP_PREFIX'', ''PREFIX_''), (''ASSET_DIRS'', ''/missing /site''),
     (''PREFIX_API_URL'', ''https://api.example.com'')]"

definition env_two_roots :: environ where
  "env_two_roots = [(''APP_PREFIX'', ''PREFIX_''), (''ASSET_DIRS'', ''/site /cdn''),
     (''PREFIX_API_URL'', ''https://api.example.com'')]"

definition env_dir :: environ where
  "env_dir = [(''dir'', ''X''), (''APP_PREFIX'', ''dir''), (''ASSET_DIRS'', ''/site /cdn'')]"

definition env_locked :: environ where
  "env_locked = [(''APP_PREFIX'', ''PREFIX_''), (''ASSET_DIRS'', ''/site /locked /cdn''),
     (''PREFIX_API_URL'', ''https://api.example.com''), (''PREFIX_Z'', ''z'')]"

definition env_spaced :: environ where
  "env_spaced = [(''APP_PREFIX'', ''PREFIX_''), (''ASSET_DIRS'', ''/my site''),
     (''PREFIX_API_URL'', ''https://api.example.com'')]"

definition env_amp :: environ where
  "env_amp = [(''APP_PREFIX'', ''PREFIX_''), (''ASSET_DIRS'', ''/site''),
     (''PREFIX_API_URL'', ''https://h/?a=1&b=2'')]"

definition env_equals :: environ where
  "env_equals = [(''APP_PREFIX'', ''PREFIX_''), (''ASSET_DIRS'', ''/site''),
     (''PREFIX_API_URL'', ''abc='' @ nl # ''zzz'')]"

text \<open>
  Runs on the root \<open>/site\<close> with the prefix \<open>PREFIX_\<close>: the further exported variables
  \<open>ps\<close>, and the state in which every file has the content \<open>s\<close>.
\<close>

definition env_of :: "(string \<times> string) list \<Rightarrow> environ" where
  "env_of ps = [(''APP_PREFIX'', ''PREFIX_''), (''ASSET_DIRS'', ''/site'')] @ ps"

definition state_of :: "string \<Rightarrow> state" where
  "state_of s = \<lparr>content = (\<lambda>f. s), out = [], err = [], env_calls = 0\<rparr>"

text \<open>The variables of the documented compose files, with the root given twice.\<close>

definition env_hello :: environ where
  "env_hello = [(''APP_PREFIX'', ''PREFIX_''), (''ASSET_DIRS'', ''/site /site/.''),
     (''PREFIX_API_URL'', ''https://api.myapp.com''),
     (''PREFIX_HELLO_WORLD'', ''Hello world from docker compose'')]"

text \<open>The definitions to unfold when the model is run on a concrete input.\<close>

lemmas model_defs =
  run_def param_set_def root_in_model_def is_ifs_def selected_pairs_def grep_anchored_def
  env_output_def listing_at_def locale_of_def locale_name_def
  bre_unsupported_def read_kv_def read_value_def sed_compile_def sed_script_def
  parse_s_command_def split_delim_def parse_rhs_def echo_def site_world_def site_state_def
  sed_pair_def subst_all_def pairs_in_model_def dir_lines_def hits_def root_ok_def configured_def
  warning_line_def scanning_line_def replacing_line_def pass_def
  ordinary_def pairs_of_lines_def pattern_key_def plain_key_def model_value_def plain_value_def
  inserted_def apart_def replace_pairs_def
  locked_world_def locked_state_def env_of_def state_of_def env_hello_def spaced_world_def env_none_def env_hidden_def env_missing_root_def env_two_roots_def
  env_dir_def env_locked_def env_spaced_def env_amp_def env_equals_def

section \<open>Listings and locale\<close>

lemma map_of_listing_at:
  "n \<noteq> ''dir'' \<Longrightarrow> map_of (listing_at e d) n = map_of e n"
  by (induction e) (auto simp: listing_at_def)

lemma locale_of_listing_at: "locale_of (listing_at e d) = locale_of e"
  by (simp add: locale_of_def locale_name_def map_of_listing_at)


lemma selected_pairs_locale:
  "selected_pairs pre l = Some ps \<Longrightarrow> locale_of l = C_Locale"
  by (auto simp: selected_pairs_def grep_anchored_def split: if_splits option.splits)

section \<open>Runs in which nothing fails\<close>

lemma sed_files_ok:
  assumes "\<forall>f \<in> set fs. access w f = Accessible" "distinct fs"
  shows "sed_files w p r fs c = (True, \<lambda>f. if f \<in> set fs then sed_g p r (c f) else c f)"
  using assms
proof (induction fs arbitrary: c)
  case Nil
  then show ?case by simp
next
  case (Cons a fs)
  then show ?case by (auto simp: fun_eq_iff)
qed

lemma while_read_ok:
  assumes "pairs_in_model C_Locale ps"
    and "ps \<noteq> [] \<Longrightarrow> find_ok w d"
    and "ps \<noteq> [] \<Longrightarrow> distinct (find_files w d)"
    and "ps \<noteq> [] \<Longrightarrow> \<forall>f \<in> set (find_files w d). access w f = Accessible"
  shows "while_read w C_Locale d ps st =
     (Exit_Zero, st\<lparr>out := out st @ map (\<lambda>(k, v). replacing_line k v) ps,
                     content := pass w ps d (content st)\<rparr>)"
  using assms
proof (induction ps arbitrary: st)
  case Nil
  have "pass w [] d (content st) = content st"
    by (simp add: pass_def subst_all_def fun_eq_iff)
  then show ?case by simp
next
  case (Cons kv ps)
  obtain k v where kv: "kv = (k, v)" by (cases kv)
  from Cons.prems(1) kv obtain p r where c: "sed_compile C_Locale k v = Some (p, r)"
    by (auto simp: pairs_in_model_def)
  have rest: "pairs_in_model C_Locale ps" using Cons.prems(1) by (simp add: pairs_in_model_def)
  have fok: "find_ok w d" and dist: "distinct (find_files w d)"
    and acc: "\<forall>f \<in> set (find_files w d). access w f = Accessible"
    using Cons.prems(2,3,4) by simp_all
  have sf: "sed_files w p r (find_files w d) c0 =
      (True, \<lambda>f. if f \<in> set (find_files w d) then sed_g p r (c0 f) else c0 f)" for c0
    using sed_files_ok[OF acc dist] .
  show ?case
    unfolding kv
    by (simp add: c sf fok Cons.IH[OF rest fok dist acc] echo_def pass_def subst_all_def
        sed_pair_def fun_eq_iff)
qed

lemma for_dirs_ok:
  assumes "\<forall>d \<in> set ds. is_dir w d \<longrightarrow>
      selected_pairs pre (listing_at e d) = Some (P d) \<and> pairs_in_model C_Locale (P d)
      \<and> (P d \<noteq> [] \<longrightarrow> root_ok w d)"
  shows "for_dirs w e pre ds st =
     (Exit_Zero, st\<lparr>out := out st @ concat (map (\<lambda>d. dir_lines w (P d) d) ds),
                     env_calls := env_calls st + length (filter (is_dir w) ds),
                     content := after_roots w P ds (content st)\<rparr>)"
  using assms
proof (induction ds arbitrary: st)
  case Nil
  then show ?case by simp
next
  case (Cons d ds)
  have rest: "\<forall>d \<in> set ds. is_dir w d \<longrightarrow>
      selected_pairs pre (listing_at e d) = Some (P d) \<and> pairs_in_model C_Locale (P d)
      \<and> (P d \<noteq> [] \<longrightarrow> root_ok w d)"
    using Cons.prems by simp
  show ?case
  proof (cases "is_dir w d")
    case False
    then show ?thesis
      by (simp add: Cons.IH[OF rest] echo_def dir_lines_def)
  next
    case True
    with Cons.prems have sel: "selected_pairs pre (listing_at e d) = Some (P d)"
      and pm: "pairs_in_model C_Locale (P d)" and ok: "P d \<noteq> [] \<Longrightarrow> root_ok w d"
      by simp_all
    have loc: "locale_of (listing_at e d) = C_Locale"
      by (rule selected_pairs_locale[OF sel])
    have h: "P d \<noteq> [] \<Longrightarrow> find_ok w d" "P d \<noteq> [] \<Longrightarrow> distinct (find_files w d)"
      "P d \<noteq> [] \<Longrightarrow> \<forall>f \<in> set (find_files w d). access w f = Accessible"
      using ok True by (auto simp: root_ok_def)
    show ?thesis
      using True
      by (simp add: sel loc while_read_ok[OF pm h] Cons.IH[OF rest] echo_def dir_lines_def)
  qed
qed

lemma after_roots_const:
  "after_roots w (\<lambda>d. ps) ds c = (\<lambda>f. (subst_all C_Locale ps ^^ hits w ds f) (c f))"
proof (induction ds arbitrary: c)
  case Nil
  then show ?case by (simp add: hits_def)
next
  case (Cons d ds)
  have "hits w (d # ds) f = (if is_dir w d \<and> f \<in> set (find_files w d) then Suc (hits w ds f) else hits w ds f)" for f
    by (simp add: hits_def)
  then show ?case
    by (auto simp: Cons.IH pass_def fun_eq_iff funpow_swap1)
qed

lemma run_configured:
  assumes "configured e pre ds"
  shows "run w e st = for_dirs w e pre ds st"
  using assms by (auto simp: configured_def run_def param_set_def)

lemma run_ok:
  assumes "configured e pre ds"
    and "\<forall>d \<in> set ds. is_dir w d \<longrightarrow>
      selected_pairs pre (listing_at e d) = Some (P d) \<and> pairs_in_model C_Locale (P d)
      \<and> (P d \<noteq> [] \<longrightarrow> root_ok w d)"
  shows "run w e st =
     (Exit_Zero, st\<lparr>out := out st @ concat (map (\<lambda>d. dir_lines w (P d) d) ds),
                     env_calls := env_calls st + length (filter (is_dir w) ds),
                     content := after_roots w P ds (content st)\<rparr>)"
  using run_configured[OF assms(1)] for_dirs_ok[OF assms(2)] by simp

lemma run_ok_same:
  assumes "configured e pre ds"
    and "\<forall>d \<in> set ds. is_dir w d \<longrightarrow> selected_pairs pre (listing_at e d) = Some ps"
    and "pairs_in_model C_Locale ps"
    and "ps \<noteq> [] \<Longrightarrow> \<forall>d \<in> set ds. root_ok w d"
  shows "run w e st =
     (Exit_Zero, st\<lparr>out := out st @ concat (map (dir_lines w ps) ds),
                     env_calls := env_calls st + length (filter (is_dir w) ds),
                     content := (\<lambda>f. (subst_all C_Locale ps ^^ hits w ds f) (content st f))\<rparr>)"
proof -
  have "\<forall>d \<in> set ds. is_dir w d \<longrightarrow>
      selected_pairs pre (listing_at e d) = Some ((\<lambda>d. ps) d) \<and> pairs_in_model C_Locale ((\<lambda>d. ps) d)
      \<and> ((\<lambda>d. ps) d \<noteq> [] \<longrightarrow> root_ok w d)"
    using assms(2,3,4) by simp
  from run_ok[OF assms(1) this, of st] show ?thesis
    by (simp add: after_roots_const)
qed


section \<open>Configuration errors\<close>

text \<open>
  Claim C2. If \<open>APP_PREFIX\<close> or \<open>ASSET_DIRS\<close> is unset or empty, the run ends at once with
  a non-zero exit for the missing setting: no root is scanned (nothing is written to
  standard output, \<open>env\<close> is never run) and no file content changes.
\<close>

theorem C2_missing_setting_fails_fast:
  assumes "map_of e ''APP_PREFIX'' = None \<or> map_of e ''APP_PREFIX'' = Some []
           \<or> map_of e ''ASSET_DIRS'' = None \<or> map_of e ''ASSET_DIRS'' = Some []"
  shows "(\<exists>var. fst (run w e st) = Exit_Nonzero (Missing_Setting var))
         \<and> content (snd (run w e st)) = content st
         \<and> out (snd (run w e st)) = out st
         \<and> env_calls (snd (run w e st)) = env_calls st"
  using assms by (auto simp: run_def param_set_def)

theorem C2_missing_setting_witness:
  "(\<exists>var. fst (run site_world [(''ASSET_DIRS'', ''/site''), (''PREFIX_API_URL'', ''x'')] site_state)
            = Exit_Nonzero (Missing_Setting var))
   \<and> content (snd (run site_world [(''ASSET_DIRS'', ''/site''), (''PREFIX_API_URL'', ''x'')] site_state))
       (Entry 1) = ''const u = PREFIX_API_URL;''"
  using C2_missing_setting_fails_fast
          [of "[(''ASSET_DIRS'', ''/site''), (''PREFIX_API_URL'', ''x'')]" site_world site_state]
  by (simp add: site_state_def)

section \<open>No variable selected\<close>

text \<open>
  Claim C7 says that a run in which no variable name matches the prefix still reports
  that zero keys were found, and makes no substitution. The script has no such report:
  on the site with no \<open>PREFIX_\<close> variable the run exits with status zero and its whole
  output is the scanning line. And what is selected are lines of the listing, not names:
  with no name starting with \<open>PREFIX_\<close>, but a second line of a value doing so, the file
  is changed.
\<close>

theorem C7_no_match_counterexample:
  "selected_pairs ''PREFIX_'' env_none = Some []
   \<and> run site_world env_none site_state
       = (Exit_Zero, site_state\<lparr>out := [''Scanning directory: /site''], env_calls := 1\<rparr>)
   \<and> filter (prefix ''PREFIX_'') (map fst env_hidden) = []
   \<and> content (snd (run site_world env_hidden site_state)) (Entry 1) = ''const u = late;''"
  by (simp add: model_defs)

text \<open>
  Claim C7, amended. When in the round of every existing root no line of the listing is
  selected, the run exits with status zero, changes no file content, writes nothing to
  standard error, and its output consists of exactly one scanning or warning line per
  root. (The listing of a round is the one listing of the exported variables, unless a
  variable \<open>dir\<close> is among them.)
\<close>

theorem C7_no_match_leaves_files:
  assumes "configured e pre ds"
    and "\<forall>d \<in> set ds. is_dir w d \<longrightarrow> selected_pairs pre (listing_at e d) = Some []"
  shows "fst (run w e st) = Exit_Zero
         \<and> content (snd (run w e st)) = content st
         \<and> out (snd (run w e st))
             = out st @ map (\<lambda>d. if is_dir w d then scanning_line d else warning_line d) ds
         \<and> err (snd (run w e st)) = err st"
proof -
  have m: "pairs_in_model C_Locale []" by (simp add: pairs_in_model_def)
  have c: "concat (map (dir_lines w []) ds)
           = map (\<lambda>d. if is_dir w d then scanning_line d else warning_line d) ds"
    by (induction ds) (simp_all add: dir_lines_def)
  have s: "(subst_all C_Locale [] ^^ n) x = x" for n x
    by (induction n) (simp_all add: subst_all_def)
  show ?thesis
    using run_ok_same[OF assms(1,2) m, of st] by (simp add: c s)
qed

theorem C7_no_match_witness:
  "configured env_none ''PREFIX_'' [''/site'']
   \<and> selected_pairs ''PREFIX_'' (listing_at env_none ''/site'') = Some []
   \<and> fst (run site_world env_none site_state) = Exit_Zero
   \<and> content (snd (run site_world env_none site_state)) = content site_state"
  using C7_no_match_leaves_files[of env_none "''PREFIX_''" "[''/site'']" site_world site_state]
  by (simp add: configured_def env_none_def root_in_model_def is_ifs_def selected_pairs_def
      grep_anchored_def env_output_def bre_unsupported_def listing_at_def locale_of_def
      locale_name_def)

section \<open>A missing root\<close>



section \<open>How often the environment is listed\<close>




section \<open>The environment listing, line by line\<close>

lemma lines_of_line: "nl \<notin> set l \<Longrightarrow> lines_of (l @ nl # rest) = l # lines_of rest"
  by (induction l) auto

lemma lines_of_terminated_nonempty: "lines_of (x @ [nl]) \<noteq> []"
  by (induction x) (auto split: list.splits)

lemma lines_of_append: "lines_of (x @ nl # y) = lines_of (x @ [nl]) @ lines_of y"
proof (induction x)
  case Nil
  then show ?case by simp
next
  case (Cons c x)
  then show ?case
    using lines_of_terminated_nonempty[of x] by (auto split: list.splits)
qed

lemma env_output_Cons: "env_output ((n, v) # e) = (n @ ''='' @ v) @ nl # env_output e"
  by (simp add: env_output_def)

lemma lines_env_Cons:
  "lines_of (env_output ((n, v) # e)) = lines_of ((n @ ''='' @ v) @ [nl]) @ lines_of (env_output e)"
  unfolding env_output_Cons by (rule lines_of_append)

lemma lines_env_append:
  "lines_of (env_output (e1 @ e2)) = lines_of (env_output e1) @ lines_of (env_output e2)"
proof (induction e1)
  case Nil
  then show ?case by (simp add: env_output_def)
next
  case (Cons a e1)
  obtain n v where a: "a = (n, v)" by (cases a)
  show ?case
    using Cons.IH lines_env_Cons[of n v "e1 @ e2"] lines_env_Cons[of n v e1]
    by (simp add: a)
qed

lemma selected_pairs_model:
  "locale_of e = C_Locale \<Longrightarrow> parse_bre pre = Some p \<Longrightarrow>
   selected_pairs pre e = Some (pairs_of_lines p (lines_of (env_output e)))"
  by (simp add: selected_pairs_def grep_anchored_def pairs_of_lines_def)



lemma match_prefix_of_prefix:
  "parse_bre pre = Some p \<Longrightarrow> prefix pre s \<Longrightarrow> match_prefix p s"
proof (induction pre arbitrary: p s)
  case Nil
  then show ?case by simp
next
  case (Cons c pre)
  from Cons.prems(2) obtain s' where s: "s = c # s'" "prefix pre s'"
    by (cases s) auto
  from Cons.prems(1) obtain p' where p: "parse_bre pre = Some p'"
    "p = (if c = CHR ''.'' then Any_Char else Lit c) # p'" "\<not> bre_unsupported c"
    by (auto split: if_splits option.splits)
  show ?case
    using Cons.IH[OF p(1) s(2)] p(2,3) s(1) by (auto simp: bre_unsupported_def)
qed

lemma read_kv_line:
  "CHR ''='' \<notin> set n \<Longrightarrow> read_kv (n @ ''='' @ v) = (n, read_value v)"
proof -
  assume "CHR ''='' \<notin> set n"
  then have ne: "\<And>x. x \<in> set n \<Longrightarrow> x \<noteq> CHR ''=''" by auto
  show ?thesis
    by (simp add: read_kv_def takeWhile_append2[OF ne] dropWhile_append2[OF ne])
qed

text \<open>
  Claim C10 says that for a variable whose value holds a newline the portion of the value
  before the first newline is the replacement. \<open>read\<close> splits the line at \<open>=\<close> and drops
  a single closing delimiter: for the value \<open>abc=\<close>, newline, \<open>zzz\<close> the portion before
  the newline is \<open>abc=\<close>, but the pair read, and the text put into the file, is \<open>abc\<close>.
\<close>

theorem C10_closing_equals_counterexample:
  "takeWhile (\<lambda>c. c \<noteq> nl) (''abc='' @ nl # ''zzz'') = ''abc=''
   \<and> selected_pairs ''PREFIX_'' env_equals = Some [(''PREFIX_API_URL'', ''abc'')]
   \<and> fst (run site_world env_equals site_state) = Exit_Zero
   \<and> content (snd (run site_world env_equals site_state)) (Entry 1) = ''const u = abc;''"
  by (simp add: model_defs)

text \<open>
  Claim C10, amended. The pairs are read line by line from the listing. For a variable
  \<open>n\<close> whose name starts with the prefix and whose value is \<open>v1\<close>, a newline, and \<open>v2\<close>, the
  replacement is \<open>v1\<close>, the portion before the first newline, without its last character
  when \<open>v1\<close> ends in \<open>=\<close> and holds no other \<open>=\<close>; nothing behind the newline reaches it.
  Every later line of the value that the prefix selects, as every line that begins with
  the prefix is, is read as a pair of its own: its key is the text before the first \<open>=\<close>,
  its value the rest, again without a single closing \<open>=\<close>.
\<close>

theorem C10_multi_line_value:
  assumes "locale_of (e1 @ (n, v1 @ nl # v2) # e2) = C_Locale"
    and "parse_bre pre = Some p" "prefix pre n"
    and "nl \<notin> set n" "CHR ''='' \<notin> set n" "nl \<notin> set v1"
  shows "selected_pairs pre (e1 @ (n, v1 @ nl # v2) # e2)
         = Some (pairs_of_lines p (lines_of (env_output e1))
                 @ (n, if v1 \<noteq> [] \<and> last v1 = CHR ''='' \<and> CHR ''='' \<notin> set (butlast v1)
                       then butlast v1 else v1)
                 # map (\<lambda>l. (takeWhile (\<lambda>c. c \<noteq> CHR ''='') l,
                              if drop 1 (dropWhile (\<lambda>c. c \<noteq> CHR ''='') l) \<noteq> []
                                 \<and> last (drop 1 (dropWhile (\<lambda>c. c \<noteq> CHR ''='') l)) = CHR ''=''
                                 \<and> CHR ''='' \<notin> set (butlast (drop 1 (dropWhile (\<lambda>c. c \<noteq> CHR ''='') l)))
                              then butlast (drop 1 (dropWhile (\<lambda>c. c \<noteq> CHR ''='') l))
                              else drop 1 (dropWhile (\<lambda>c. c \<noteq> CHR ''='') l)))
                     (filter (match_prefix p) (lines_of (v2 @ [nl])))
                 @ pairs_of_lines p (lines_of (env_output e2)))
         \<and> (\<forall>l. prefix pre l \<longrightarrow> match_prefix p l)
         \<and> (nl \<notin> set v2 \<longrightarrow> lines_of (v2 @ [nl]) = [v2])"
proof -
  let ?l = "n @ ''='' @ v1"
  have nonl: "nl \<notin> set ?l" using assms(4,6) by simp
  have m: "match_prefix p ?l"
    using match_prefix_of_prefix[OF assms(2) prefix_prefix[OF assms(3)]] .
  have "lines_of ((n @ ''='' @ v1 @ nl # v2) @ [nl]) = ?l # lines_of (v2 @ [nl])"
    using lines_of_line[OF nonl, of "v2 @ [nl]"] by simp
  then have "lines_of (env_output (e1 @ (n, v1 @ nl # v2) # e2))
      = lines_of (env_output e1) @ ?l # lines_of (v2 @ [nl]) @ lines_of (env_output e2)"
    by (simp add: lines_env_append lines_env_Cons)
  then have sel: "selected_pairs pre (e1 @ (n, v1 @ nl # v2) # e2)
      = Some (pairs_of_lines p (lines_of (env_output e1))
              @ read_kv ?l # pairs_of_lines p (lines_of (v2 @ [nl]))
              @ pairs_of_lines p (lines_of (env_output e2)))"
    using m by (simp add: selected_pairs_model[OF assms(1,2)] pairs_of_lines_def)
  have first: "read_kv ?l = (n, if v1 \<noteq> [] \<and> last v1 = CHR ''='' \<and> CHR ''='' \<notin> set (butlast v1)
                       then butlast v1 else v1)"
    using read_kv_line[OF assms(5), of v1] by (simp add: read_value_def)
  have later: "pairs_of_lines p ls
     = map (\<lambda>l. (takeWhile (\<lambda>c. c \<noteq> CHR ''='') l,
                  if drop 1 (dropWhile (\<lambda>c. c \<noteq> CHR ''='') l) \<noteq> []
                     \<and> last (drop 1 (dropWhile (\<lambda>c. c \<noteq> CHR ''='') l)) = CHR ''=''
                     \<and> CHR ''='' \<notin> set (butlast (drop 1 (dropWhile (\<lambda>c. c \<noteq> CHR ''='') l)))
                  then butlast (drop 1 (dropWhile (\<lambda>c. c \<noteq> CHR ''='') l))
                  else drop 1 (dropWhile (\<lambda>c. c \<noteq> CHR ''='') l)))
         (filter (match_prefix p) ls)" for ls
    by (simp add: pairs_of_lines_def read_kv_def[abs_def] read_value_def)
  have one: "nl \<notin> set v2 \<Longrightarrow> lines_of (v2 @ [nl]) = [v2]"
    using lines_of_line[of v2 "[]"] by simp
  show ?thesis
    using sel first later[of "lines_of (v2 @ [nl])"] match_prefix_of_prefix[OF assms(2)] one
    by simp
qed

theorem C10_multi_line_value_witness:
  "selected_pairs ''PREFIX_''
     [(''PATH'', ''/bin''), (''PREFIX_A'', ''one='' @ nl # ''PREFIX_B=two'' @ nl # ''zzz'')]
     = Some [(''PREFIX_A'', ''one''), (''PREFIX_B'', ''two'')]"
  using C10_multi_line_value[of "[(''PATH'', ''/bin'')]" "''PREFIX_A''" "''one=''"
          "''PREFIX_B=two'' @ nl # ''zzz''" "[]" "''PREFIX_''" "map Lit ''PREFIX_''"]
  by (simp add: model_defs)

section \<open>Field splitting of the roots\<close>






section \<open>Prefix and key as regular expressions\<close>

lemma parse_bre_ordinary: "\<forall>c \<in> set s. ordinary c \<Longrightarrow> parse_bre s = Some (map Lit s)"
  by (induction s) (simp_all add: ordinary_def)

lemma match_prefix_Lit: "match_prefix (map Lit k) s = prefix k s"
proof (induction k arbitrary: s)
  case Nil
  then show ?case by simp
next
  case (Cons a k)
  then show ?case by (cases s) auto
qed

lemma match_prefix_fragment:
  "parse_bre x = Some q \<Longrightarrow>
   match_prefix q s \<longleftrightarrow>
     length x \<le> length s \<and> (\<forall>i < length x. x ! i = s ! i \<or> x ! i = CHR ''.'' \<and> s ! i \<noteq> nl)"
proof (induction x arbitrary: q s)
  case Nil
  then show ?case by simp
next
  case (Cons c x)
  from Cons.prems obtain q' where q: "parse_bre x = Some q'"
    "q = (if c = CHR ''.'' then Any_Char else Lit c) # q'" "\<not> bre_unsupported c"
    by (auto split: if_splits option.splits)
  show ?case
  proof (cases s)
    case Nil
    then show ?thesis by (simp add: q(2))
  next
    case (Cons d s')
    have nl: "c \<noteq> nl" using q(3) by (simp add: bre_unsupported_def)
    show ?thesis
      unfolding Cons q(2)
      using Cons.IH[OF q(1), of s'] nl
      by (auto simp: All_less_Suc2 nth_Cons')
  qed
qed

lemma split_delim_bar:
  "d \<notin> set k \<Longrightarrow> split_delim d (k @ d # rest) = (k, rest)"
proof -
  assume "d \<notin> set k"
  then have ne: "\<And>x. x \<in> set k \<Longrightarrow> x \<noteq> d" by auto
  show ?thesis
    by (simp add: split_delim_def takeWhile_append2[OF ne] dropWhile_append2[OF ne])
qed

lemma sed_compile_plain:
  assumes "plain_key k" "plain_value v"
  shows "sed_compile C_Locale k v = Some (map Lit k, map RLit v)"
proof -
  have k: "CHR ''|'' \<notin> set k" "k \<noteq> []" "\<forall>c \<in> set k. ordinary c"
    using assms(1) by (auto simp: plain_key_def)
  have v: "CHR ''|'' \<notin> set v" using assms(2) by (auto simp: plain_value_def model_value_def)
  have nb: "backslash \<notin> set k" "nl \<notin> set k" "backslash \<notin> set v" "nl \<notin> set v"
    using assms
    by (auto simp: plain_key_def plain_value_def model_value_def ordinary_def bre_unsupported_def)
  have r: "parse_rhs v = map RLit v"
    using assms(2) by (auto simp: parse_rhs_def plain_value_def model_value_def)
  show ?thesis
    using split_delim_bar[OF k(1), of "v @ ''|g''"] split_delim_bar[OF v, of "''g''"] k(2) nb
    by (simp add: sed_compile_def sed_script_def parse_s_command_def parse_bre_ordinary[OF k(3)] r)
qed

lemma expand_rhs_RLit: "expand_rhs (map RLit v) m = v"
  by (induction v) simp_all

lemma sed_g_literal: "sed_g (map Lit k) (map RLit v) s = replace_all k v s"
  by (induction k v s rule: replace_all.induct) (auto simp: match_prefix_Lit expand_rhs_RLit)

lemma sed_pair_plain:
  "plain_key k \<Longrightarrow> plain_value v \<Longrightarrow> sed_pair C_Locale k v s = replace_all k v s"
  by (simp add: sed_pair_def sed_compile_plain sed_g_literal)

lemma replace_all_at_key:
  "k \<noteq> [] \<Longrightarrow> replace_all k v (k @ t) = v @ replace_all k v t"
  by (cases k) simp_all

lemma grep_anchored_fragment:
  assumes "\<forall>c \<in> set x. \<not> bre_unsupported c"
  shows "grep_anchored C_Locale x ls
         = Some (filter (\<lambda>l. length x \<le> length l
                   \<and> (\<forall>i < length x. x ! i = l ! i \<or> x ! i = CHR ''.'' \<and> l ! i \<noteq> nl)) ls)"
proof -
  have "\<exists>q. parse_bre x = Some q" using assms by (induction x) auto
  then obtain q where q: "parse_bre x = Some q" by blast
  show ?thesis
    by (simp add: grep_anchored_def q match_prefix_fragment[OF q, abs_def])
qed

text \<open>
  Claim C8 says that key and prefix match only their literal text even when they contain
  regular-expression metacharacters. Neither \<open>grep\<close> nor \<open>sed\<close> is run with an option for
  fixed strings: the prefix \<open>APP.\<close> selects the variable \<open>APPX_KEY\<close>, whose name does not
  start with \<open>APP.\<close>, and the key \<open>P.X\<close> replaces the text \<open>PaX\<close>, which does not contain
  the key.
\<close>

theorem C8_regex_counterexample:
  "\<not> prefix ''APP.'' ''APPX_KEY''
   \<and> selected_pairs ''APP.'' [(''APPX_KEY'', ''v'')] = Some [(''APPX_KEY'', ''v'')]
   \<and> \<not> sublist ''P.X'' ''const PaX''
   \<and> sed_pair C_Locale ''P.X'' ''v'' ''const PaX'' = ''const v''"
  by (simp add: model_defs sublist_Cons_right)

text \<open>
  Claim C8, amended. In the C locale, where a character is a byte, prefix and key are
  basic regular expressions. A prefix without \<open>. [ * ^ $\<close>, backslash and newline
  selects exactly the lines that begin with the prefix, byte for byte; with dots, a dot
  stands for any byte but a newline and every other character for itself. A key without
  these characters and without the delimiter \<open>|\<close>, together with a value without
  \<open>& |\<close>, backslash and newline, is replaced literally: where the text continues with
  the key the value is put and the search goes on behind the key, and where it does not
  the character is kept.
\<close>

theorem C8_literal_without_metacharacters:
  assumes "\<forall>c \<in> set pre. c \<notin> set ''.[*^$'' \<and> c \<noteq> backslash \<and> c \<noteq> nl"
    and "k \<noteq> []" "\<forall>c \<in> set k. c \<notin> set ''.[*^$|'' \<and> c \<noteq> backslash \<and> c \<noteq> nl"
    and "\<forall>c \<in> set v. c \<notin> set ''&|'' \<and> c \<noteq> backslash \<and> c \<noteq> nl"
  shows "grep_anchored C_Locale pre ls = Some (filter (prefix pre) ls)
         \<and> (\<forall>x. (\<forall>c \<in> set x. c \<notin> set ''[*^$'' \<and> c \<noteq> backslash \<and> c \<noteq> nl) \<longrightarrow>
              grep_anchored C_Locale x ls
              = Some (filter (\<lambda>l. length x \<le> length l
                        \<and> (\<forall>i < length x. x ! i = l ! i \<or> x ! i = CHR ''.'' \<and> l ! i \<noteq> nl)) ls))
         \<and> sed_pair C_Locale k v [] = []
         \<and> sed_pair C_Locale k v (k @ s) = v @ sed_pair C_Locale k v s
         \<and> (\<not> prefix k (c # s) \<longrightarrow> sed_pair C_Locale k v (c # s) = c # sed_pair C_Locale k v s)"
proof -
  have pre: "\<forall>c \<in> set pre. ordinary c"
    using assms(1) by (simp add: ordinary_def bre_unsupported_def)
  have g: "grep_anchored C_Locale pre ls = Some (filter (prefix pre) ls)"
    by (simp add: grep_anchored_def parse_bre_ordinary[OF pre] match_prefix_Lit[abs_def])
  have d: "\<forall>x. (\<forall>c \<in> set x. c \<notin> set ''[*^$'' \<and> c \<noteq> backslash \<and> c \<noteq> nl) \<longrightarrow>
              grep_anchored C_Locale x ls
              = Some (filter (\<lambda>l. length x \<le> length l
                        \<and> (\<forall>i < length x. x ! i = l ! i \<or> x ! i = CHR ''.'' \<and> l ! i \<noteq> nl)) ls)"
  proof (intro allI impI)
    fix x assume "\<forall>c \<in> set x. c \<notin> set ''[*^$'' \<and> c \<noteq> backslash \<and> c \<noteq> nl"
    then have "\<forall>c \<in> set x. \<not> bre_unsupported c" by (simp add: bre_unsupported_def)
    then show "grep_anchored C_Locale x ls
              = Some (filter (\<lambda>l. length x \<le> length l
                        \<and> (\<forall>i < length x. x ! i = l ! i \<or> x ! i = CHR ''.'' \<and> l ! i \<noteq> nl)) ls)"
      by (rule grep_anchored_fragment)
  qed
  have k: "plain_key k"
    using assms(2,3) by (simp add: plain_key_def ordinary_def bre_unsupported_def)
  have v: "plain_value v"
    using assms(4) by (auto simp: plain_value_def model_value_def)
  have r: "sed_pair C_Locale k v = replace_all k v"
    by (rule ext) (rule sed_pair_plain[OF k v])
  have miss: "\<not> prefix k (c # s) \<longrightarrow> replace_all k v (c # s) = c # replace_all k v s"
    by simp
  show ?thesis
    unfolding r using g d replace_all_at_key[OF assms(2), of v s] miss by simp
qed

theorem C8_literal_witness:
  "grep_anchored C_Locale ''PREFIX_'' [''PREFIX_A=1'', ''prefix_B=2'', ''XPREFIX_C=3'']
     = Some [''PREFIX_A=1'']
   \<and> grep_anchored C_Locale ''P.X'' [''PaX=1'', ''P.X=2'', ''P=3''] = Some [''PaX=1'', ''P.X=2'']
   \<and> sed_pair C_Locale ''PREFIX_A'' ''1'' (''PREFIX_A'' @ ''; PREFIX_A'')
       = ''1'' @ sed_pair C_Locale ''PREFIX_A'' ''1'' ''; PREFIX_A''
   \<and> sed_pair C_Locale ''PREFIX_A'' ''1'' ''prefix_A PREFIX_A'' = ''prefix_A 1''"
  using C8_literal_without_metacharacters[of "''PREFIX_''" "''PREFIX_A''" "''1''"
      "[''PREFIX_A=1'', ''prefix_B=2'', ''XPREFIX_C=3'']" "''; PREFIX_A''" "CHR ''p''"]
  by (simp add: model_defs)

section \<open>Files that cannot be processed\<close>






section \<open>Where a replacement can form a key\<close>

lemma replace_all_skip:
  assumes "\<forall>i < length u. \<not> prefix k (drop i u @ t)"
  shows "replace_all k v (u @ t) = u @ replace_all k v t"
  using assms
proof (induction u)
  case Nil
  then show ?case by simp
next
  case (Cons a u)
  have h0: "\<not> prefix k (a # u @ t)" using Cons.prems by (auto dest: spec[of _ 0])
  have hs: "\<forall>i < length u. \<not> prefix k (drop i u @ t)"
  proof (intro allI impI)
    fix i assume "i < length u"
    then have "Suc i < length (a # u)" by simp
    with Cons.prems have "\<not> prefix k (drop (Suc i) (a # u) @ t)" by blast
    then show "\<not> prefix k (drop i u @ t)" by simp
  qed
  show ?case using h0 Cons.IH[OF hs] by simp
qed

lemma meets_drop:
  "i < length b \<Longrightarrow> prefix a (drop i b) \<or> prefix (drop i b) a \<Longrightarrow> meets a b"
proof (induction b arbitrary: i)
  case Nil
  then show ?case by simp
next
  case (Cons c b)
  then show ?case by (cases i) auto
qed

lemma sublist_meets: "a \<noteq> [] \<Longrightarrow> sublist a b \<Longrightarrow> meets a b"
proof -
  assume ne: "a \<noteq> []" and "sublist a b"
  then obtain ps ss where b: "b = ps @ a @ ss" by (auto simp: sublist_def)
  have "length ps < length b" using ne b by simp
  moreover have "prefix a (drop (length ps) b)" using b by simp
  ultimately show ?thesis using meets_drop by blast
qed

lemma replace_all_skip_key:
  assumes "\<not> meets k u"
  shows "replace_all k v (u @ t) = u @ replace_all k v t"
proof (rule replace_all_skip, intro allI impI)
  fix i assume i: "i < length u"
  show "\<not> prefix k (drop i u @ t)"
  proof
    assume "prefix k (drop i u @ t)"
    then have "prefix k (drop i u) \<or> prefix (drop i u) k"
      by (auto simp: prefix_append)
    then show False using meets_drop[OF i] assms by blast
  qed
qed




lemma prefix_sed_g:
  "r = map RLit v \<Longrightarrow> \<not> meets v q \<Longrightarrow> prefix q (sed_g p r s) \<Longrightarrow> prefix q s"
proof (induction p r s arbitrary: q rule: sed_g.induct)
  case (1 p r)
  then show ?case by simp
next
  case (2 p r c cs)
  note r = "2.prems"(1) and nm = "2.prems"(2) and pr = "2.prems"(3)
  show ?case
  proof (cases q)
    case Nil
    then show ?thesis by simp
  next
    case (Cons a q')
    show ?thesis
    proof (cases "p \<noteq> [] \<and> match_prefix p (c # cs)")
      case True
      with pr r have "prefix q (v @ sed_g p (map RLit v) (drop (length p - 1) cs))"
        by (simp add: expand_rhs_RLit)
      then have "prefix q v \<or> prefix v q" by (auto simp: prefix_append)
      then have "meets v q" unfolding Cons by auto
      then show ?thesis using nm by simp
    next
      case False
      with pr have pc: "prefix (a # q') (c # sed_g p r cs)" unfolding Cons by auto
      then have a: "a = c" "prefix q' (sed_g p r cs)" by simp_all
      have "\<not> meets v q'" using nm unfolding Cons by simp
      then have "prefix q' cs" using "2.IH"(2)[OF False r _ a(2)] by blast
      then show ?thesis using Cons a(1) by simp
    qed
  qed
qed



text \<open>The same for the literal replacement.\<close>

lemma prefix_replace_all:
  "\<not> meets v q \<Longrightarrow> prefix q (replace_all k v s) \<Longrightarrow> prefix q s"
  using prefix_sed_g[of "map RLit v" v q "map Lit k" s] by (simp add: sed_g_literal)


lemma replace_all_commute:
  assumes "k1 \<noteq> []" "k2 \<noteq> []"
    and "\<not> meets k1 k2" "\<not> meets k2 k1"
    and "\<not> meets k2 x1" "\<not> meets x1 k2"
    and "\<not> meets k1 x2" "\<not> meets x2 k1"
  shows "replace_all k2 x2 (replace_all k1 x1 s) = replace_all k1 x1 (replace_all k2 x2 s)"
proof (induction s rule: length_induct)
  case (1 s)
  show ?case
  proof (cases s)
    case Nil
    then show ?thesis by simp
  next
    case (Cons c cs)
    consider (a) "prefix k1 s" | (b) "prefix k2 s" | (c) "\<not> prefix k1 s" "\<not> prefix k2 s"
      by blast
    then show ?thesis
    proof cases
      case a
      then obtain t where t: "s = k1 @ t" by (auto simp: prefix_def)
      have lt: "length t < length s" using t assms(1) by simp
      have ih: "replace_all k2 x2 (replace_all k1 x1 t) = replace_all k1 x1 (replace_all k2 x2 t)"
        using 1 lt by blast
      have l: "replace_all k2 x2 (replace_all k1 x1 s) = x1 @ replace_all k2 x2 (replace_all k1 x1 t)"
        unfolding t by (simp add: replace_all_at_key[OF assms(1)] replace_all_skip_key[OF assms(5)])
      have r: "replace_all k1 x1 (replace_all k2 x2 s) = x1 @ replace_all k1 x1 (replace_all k2 x2 t)"
        unfolding t by (simp add: replace_all_skip_key[OF assms(4)] replace_all_at_key[OF assms(1)])
      show ?thesis using l r ih by simp
    next
      case b
      then obtain t where t: "s = k2 @ t" by (auto simp: prefix_def)
      have lt: "length t < length s" using t assms(2) by simp
      have ih: "replace_all k2 x2 (replace_all k1 x1 t) = replace_all k1 x1 (replace_all k2 x2 t)"
        using 1 lt by blast
      have r: "replace_all k1 x1 (replace_all k2 x2 s) = x2 @ replace_all k1 x1 (replace_all k2 x2 t)"
        unfolding t by (simp add: replace_all_at_key[OF assms(2)] replace_all_skip_key[OF assms(7)])
      have l: "replace_all k2 x2 (replace_all k1 x1 s) = x2 @ replace_all k2 x2 (replace_all k1 x1 t)"
        unfolding t by (simp add: replace_all_skip_key[OF assms(3)] replace_all_at_key[OF assms(2)])
      show ?thesis using l r ih by simp
    next
      case c
      have lt: "length cs < length s" using Cons by simp
      have ih: "replace_all k2 x2 (replace_all k1 x1 cs) = replace_all k1 x1 (replace_all k2 x2 cs)"
        using 1 lt by blast
      have s1: "replace_all k1 x1 s = c # replace_all k1 x1 cs"
        and s2: "replace_all k2 x2 s = c # replace_all k2 x2 cs"
        using c Cons by simp_all
      have n2: "\<not> prefix k2 (c # replace_all k1 x1 cs)"
        using prefix_replace_all[OF assms(6), of k1 s] c(2) s1 by auto
      have n1: "\<not> prefix k1 (c # replace_all k2 x2 cs)"
        using prefix_replace_all[OF assms(8), of k2 s] c(1) s2 by auto
      show ?thesis using n1 n2 ih by (simp add: s1 s2)
    qed
  qed
qed

lemma meets_iff:
  "meets a b \<longleftrightarrow> (\<exists>i < length b. prefix a (drop i b) \<or> prefix (drop i b) a)"
proof
  show "meets a b \<Longrightarrow> \<exists>i < length b. prefix a (drop i b) \<or> prefix (drop i b) a"
  proof (induction b)
    case Nil
    then show ?case by simp
  next
    case (Cons c b)
    from Cons.prems have "prefix a (c # b) \<or> prefix (c # b) a \<or> meets a b" by simp
    then show ?case
    proof (elim disjE)
      assume "meets a b"
      then obtain i where "i < length b" "prefix a (drop i b) \<or> prefix (drop i b) a"
        using Cons.IH by blast
      then have "Suc i < length (c # b)"
        "prefix a (drop (Suc i) (c # b)) \<or> prefix (drop (Suc i) (c # b)) a" by simp_all
      then show ?thesis by blast
    next
      assume "prefix a (c # b)"
      then have "0 < length (c # b)" "prefix a (drop 0 (c # b))" by simp_all
      then show ?thesis by blast
    next
      assume "prefix (c # b) a"
      then have "0 < length (c # b)" "prefix (drop 0 (c # b)) a" by simp_all
      then show ?thesis by blast
    qed
  qed
next
  show "\<exists>i < length b. prefix a (drop i b) \<or> prefix (drop i b) a \<Longrightarrow> meets a b"
    using meets_drop by blast
qed

section \<open>Order of the substitutions\<close>

lemma sed_compile_model:
  assumes "plain_key k" "model_value v"
  shows "sed_compile C_Locale k v = Some (map Lit k, parse_rhs v)"
proof -
  have k: "CHR ''|'' \<notin> set k" "k \<noteq> []" "\<forall>c \<in> set k. ordinary c"
    using assms(1) by (auto simp: plain_key_def)
  have v: "CHR ''|'' \<notin> set v" using assms(2) by (auto simp: model_value_def)
  have nb: "backslash \<notin> set k" "nl \<notin> set k" "backslash \<notin> set v" "nl \<notin> set v"
    using assms
    by (auto simp: plain_key_def model_value_def ordinary_def bre_unsupported_def)
  show ?thesis
    using split_delim_bar[OF k(1), of "v @ ''|g''"] split_delim_bar[OF v, of "''g''"] k(2) nb
    by (simp add: sed_compile_def sed_script_def parse_s_command_def parse_bre_ordinary[OF k(3)])
qed

lemma expand_rhs_parse_rhs: "expand_rhs (parse_rhs v) m = inserted m v"
  by (induction v) (simp_all add: parse_rhs_def inserted_def)

lemma sed_g_inserted:
  "x = inserted k v \<Longrightarrow> sed_g (map Lit k) (parse_rhs v) s = replace_all k x s"
proof (induction k x s rule: replace_all.induct)
  case (1 k x)
  then show ?case by simp
next
  case (2 k x c cs)
  show ?case
  proof (cases "k \<noteq> [] \<and> prefix k (c # cs)")
    case True
    then have tk: "take (length k) (c # cs) = k"
      by (metis append_eq_conv_conj prefix_def)
    show ?thesis
      using True "2.IH"(1)[OF True "2.prems"] "2.prems"
      by (simp add: match_prefix_Lit expand_rhs_parse_rhs tk del: take_Suc_Cons)
  next
    case False
    then show ?thesis
      using "2.IH"(2)[OF False "2.prems"] by (auto simp: match_prefix_Lit)
  qed
qed

lemma sed_pair_inserted:
  "plain_key k \<Longrightarrow> model_value v \<Longrightarrow> sed_pair C_Locale k v s = replace_all k (inserted k v) s"
  by (simp add: sed_pair_def sed_compile_model sed_g_inserted)

text \<open>
  Claim C6 says that two keys, neither a substring of the other, can be applied in
  either order. Pairs of such keys for which the order shows: a value that contains the
  other key; two keys that overlap (an end of one is a beginning of the other); an empty
  value that lets the text around it close up to the other key; a value that is a part
  of the other key; a value that ends with the beginning of the other key; a value that
  begins with the ending of the other key; and a key with a dot, which as a regular
  expression matches the other key.
\<close>

theorem C6_order_counterexample:
  "\<not> sublist ''PREFIX_A'' ''PREFIX_B'' \<and> \<not> sublist ''PREFIX_B'' ''PREFIX_A''
   \<and> sed_pair C_Locale ''PREFIX_B'' ''z'' (sed_pair C_Locale ''PREFIX_A'' ''PREFIX_B'' ''u = PREFIX_A'')
       = ''u = z''
   \<and> sed_pair C_Locale ''PREFIX_A'' ''PREFIX_B'' (sed_pair C_Locale ''PREFIX_B'' ''z'' ''u = PREFIX_A'')
       = ''u = PREFIX_B''
   \<and> \<not> sublist ''P_XP_'' ''P_Y'' \<and> \<not> sublist ''P_Y'' ''P_XP_''
   \<and> sed_pair C_Locale ''P_Y'' ''2'' (sed_pair C_Locale ''P_XP_'' ''1'' ''P_XP_Y'') = ''1Y''
   \<and> sed_pair C_Locale ''P_XP_'' ''1'' (sed_pair C_Locale ''P_Y'' ''2'' ''P_XP_Y'') = ''P_X2''
   \<and> \<not> sublist ''P_A'' ''P_B'' \<and> \<not> sublist ''P_B'' ''P_A''
   \<and> sed_pair C_Locale ''P_B'' ''x'' (sed_pair C_Locale ''P_A'' [] ''P_P_AB'') = ''x''
   \<and> sed_pair C_Locale ''P_A'' [] (sed_pair C_Locale ''P_B'' ''x'' ''P_P_AB'') = ''P_B''
   \<and> sed_pair C_Locale ''P_B'' ''x'' (sed_pair C_Locale ''P_A'' ''_'' ''PP_AB'') = ''x''
   \<and> sed_pair C_Locale ''P_A'' ''_'' (sed_pair C_Locale ''P_B'' ''x'' ''PP_AB'') = ''P_B''
   \<and> sed_pair C_Locale ''P_B'' ''x'' (sed_pair C_Locale ''P_A'' ''yP_'' ''P_AB'') = ''yx''
   \<and> sed_pair C_Locale ''P_A'' ''yP_'' (sed_pair C_Locale ''P_B'' ''x'' ''P_AB'') = ''yP_B''
   \<and> sed_pair C_Locale ''P_B'' ''x'' (sed_pair C_Locale ''P_A'' ''By'' ''P_P_A'') = ''xy''
   \<and> sed_pair C_Locale ''P_A'' ''By'' (sed_pair C_Locale ''P_B'' ''x'' ''P_P_A'') = ''P_By''
   \<and> \<not> sublist ''P.X'' ''PaX'' \<and> \<not> sublist ''PaX'' ''P.X''
   \<and> sed_pair C_Locale ''PaX'' ''2'' (sed_pair C_Locale ''P.X'' ''1'' ''PaX'') = ''1''
   \<and> sed_pair C_Locale ''P.X'' ''1'' (sed_pair C_Locale ''PaX'' ''2'' ''PaX'') = ''2''"
  by (simp add: model_defs sublist_Cons_right)

text \<open>
  Claim C6, amended. Let two keys be free of \<open>. [ * ^ $ |\<close>, backslash and newline, and
  the two values free of \<open>|\<close>, backslash and newline; the text that \<open>sed\<close> puts for a key
  is its value with every \<open>&\<close> standing for the key. If no occurrence of one key can
  begin inside the other key, and each key is apart from the text put for the other key
  (no occurrence of one can begin inside the other), then applying the two substitutions
  to a content in either order gives the same content.
\<close>

theorem C6_order_independent_keys:
  assumes "k1 \<noteq> []" "\<forall>c \<in> set k1. c \<notin> set ''.[*^$|'' \<and> c \<noteq> backslash \<and> c \<noteq> nl"
    and "k2 \<noteq> []" "\<forall>c \<in> set k2. c \<notin> set ''.[*^$|'' \<and> c \<noteq> backslash \<and> c \<noteq> nl"
    and "\<forall>c \<in> set v1. c \<noteq> CHR ''|'' \<and> c \<noteq> backslash \<and> c \<noteq> nl"
    and "\<forall>c \<in> set v2. c \<noteq> CHR ''|'' \<and> c \<noteq> backslash \<and> c \<noteq> nl"
    and "\<not> meets k1 k2" "\<not> meets k2 k1"
    and "\<not> meets k2 (concat (map (\<lambda>c. if c = CHR ''&'' then k1 else [c]) v1))"
    and "\<not> meets (concat (map (\<lambda>c. if c = CHR ''&'' then k1 else [c]) v1)) k2"
    and "\<not> meets k1 (concat (map (\<lambda>c. if c = CHR ''&'' then k2 else [c]) v2))"
    and "\<not> meets (concat (map (\<lambda>c. if c = CHR ''&'' then k2 else [c]) v2)) k1"
  shows "\<not> sublist k1 k2 \<and> \<not> sublist k2 k1
         \<and> sed_pair C_Locale k2 v2 (sed_pair C_Locale k1 v1 s)
             = sed_pair C_Locale k1 v1 (sed_pair C_Locale k2 v2 s)"
proof -
  have pk: "plain_key k1" "plain_key k2"
    using assms(1-4) by (simp_all add: plain_key_def ordinary_def bre_unsupported_def)
  have mv: "model_value v1" "model_value v2"
    using assms(5,6) by (simp_all add: model_value_def)
  have "\<not> sublist k1 k2" "\<not> sublist k2 k1"
    using sublist_meets[OF assms(1)] sublist_meets[OF assms(3)] assms(7,8) by blast+
  then show ?thesis
    using replace_all_commute[OF assms(1,3,7,8) assms(9-12)[folded inserted_def]]
    by (simp add: sed_pair_inserted[OF pk(1) mv(1)] sed_pair_inserted[OF pk(2) mv(2)])
qed

theorem C6_order_independent_witness:
  "\<not> meets ''VITE_API_URL'' ''VITE_VALUE'' \<and> \<not> meets ''VITE_VALUE'' ''VITE_API_URL''
   \<and> sed_pair C_Locale ''VITE_VALUE'' ''Injected at runtime''
       (sed_pair C_Locale ''VITE_API_URL'' ''https://staging-api.example.com''
          ''a VITE_VALUE b VITE_API_URL'')
     = sed_pair C_Locale ''VITE_API_URL'' ''https://staging-api.example.com''
       (sed_pair C_Locale ''VITE_VALUE'' ''Injected at runtime'' ''a VITE_VALUE b VITE_API_URL'')
   \<and> sed_pair C_Locale ''VITE_API_URL'' ''https://staging-api.example.com''
       (sed_pair C_Locale ''VITE_VALUE'' ''Injected at runtime'' ''a VITE_VALUE b VITE_API_URL'')
     = ''a Injected at runtime b https://staging-api.example.com''"
  using C6_order_independent_keys[of "''VITE_API_URL''" "''VITE_VALUE''"
          "''https://staging-api.example.com''" "''Injected at runtime''"
          "''a VITE_VALUE b VITE_API_URL''"]
  by (simp add: model_defs)

section \<open>Completeness of the substitution\<close>


















end
